theory Spec2Isabelle
  imports Complex_Main
begin

section \<open>Amplitude Shift Keying simulator (src/src/amplitude_shift_keying.py)\<close>

text \<open>
  The class \<open>ASK\<close> is embedded as a record and its methods as functions on it.
  Conventions of the embedding:
  \<^item> \<open>sampling_frec\<close>, \<open>carry_frec\<close> and \<open>bits_num\<close> are Python ints that the docstring
    and the data model declare as counts; they are \<open>nat\<close> here (zero included, negative
    values outside the model).
  \<^item> NumPy float64 arrays are \<open>real list\<close>: rounding error of the floating-point
    operations is not modelled. The two float results that are not real numbers
    (\<open>inf\<close>, \<open>nan\<close>) appear only as results of a NumPy scalar division and have their own
    type \<open>np_float\<close>.
  \<^item> every exception of the source is a value \<open>Inl e\<close> of the result.
  \<^item> the process-wide random generator and the file system are explicit state.
\<close>

subsection \<open>Exceptions and NumPy primitives\<close>

datatype py_error = ZeroDivisionError | ValueError | IndexError | FileNotFoundError

datatype np_float = Finite real | PosInf | NaN

text \<open>\<open>np.linspace(0, 1, n)\<close>: \<open>n\<close> evenly spaced samples of [0, 1], both ends included;
  the single sample for \<open>n = 1\<close> is the start.\<close>

definition np_linspace01 :: "nat \<Rightarrow> real list" where
  "np_linspace01 n = map (\<lambda>i. if n = 1 then 0 else real i / real (n - 1)) [0..<n]"

text \<open>\<open>np.repeat(xs, n)\<close> for a one-dimensional array and a count \<open>n\<close>.\<close>

definition np_repeat :: "'a list \<Rightarrow> nat \<Rightarrow> 'a list" where
  "np_repeat xs n = concat (map (replicate n) xs)"

text \<open>An element-wise binary operation on two one-dimensional arrays, with NumPy's
  broadcasting: equal lengths combine position by position, an array of length one is
  stretched over the other, and any other pair of lengths raises \<open>ValueError\<close>
  (operands could not be broadcast together).\<close>

definition np_binop :: "('a \<Rightarrow> 'b \<Rightarrow> 'c) \<Rightarrow> 'a list \<Rightarrow> 'b list \<Rightarrow> py_error + 'c list" where
  "np_binop f xs ys =
     (if length xs = length ys then Inr (map2 f xs ys)
      else if length xs = 1 then Inr (map (f (hd xs)) ys)
      else if length ys = 1 then Inr (map (\<lambda>x. f x (hd ys)) xs)
      else Inl ValueError)"

text \<open>\<open>np.split(xs, n)\<close> with an integer \<open>n\<close>: the test \<open>N % n\<close> divides by zero for
  \<open>n = 0\<close>, an unequal division raises \<open>ValueError\<close>, otherwise the array is cut into
  \<open>n\<close> consecutive sections of \<open>N / n\<close> elements.\<close>

definition np_split :: "'a list \<Rightarrow> nat \<Rightarrow> py_error + 'a list list" where
  "np_split xs n =
     (if n = 0 then Inl ZeroDivisionError
      else if length xs mod n \<noteq> 0 then Inl ValueError
      else Inr (map (\<lambda>k. take (length xs div n) (drop (k * (length xs div n)) xs)) [0..<n]))"

text \<open>A NumPy integer scalar divided by a Python int (true division): division by zero
  does not raise, it gives \<open>nan\<close> for 0/0 and \<open>inf\<close> otherwise, with a warning.\<close>

definition np_true_divide :: "nat \<Rightarrow> nat \<Rightarrow> np_float" where
  "np_true_divide e n =
     (if n \<noteq> 0 then Finite (real e / real n) else if e = 0 then NaN else PosInf)"

text \<open>\<open>np.round(x, 1)\<close>: \<open>rint(x * 10) / 10\<close>, where \<open>rint\<close> rounds to the nearest
  integer and a tie to the even one.\<close>

definition np_rint :: "real \<Rightarrow> int" where
  "np_rint y =
     (let f = \<lfloor>y\<rfloor>; d = y - of_int f
      in if d < 1 / 2 then f else if 1 / 2 < d then f + 1 else if even f then f else f + 1)"

definition np_round1 :: "real \<Rightarrow> real" where
  "np_round1 x = of_int (np_rint (x * 10)) / 10"

subsection \<open>The simulator object\<close>

record ASK =
  sampling_frec :: nat
  carry_frec :: nat
  bits_num :: nat
  noise :: real
  time :: "real list"
  samp_per_bit :: nat

text \<open>\<open>ASK.__init__\<close>. The quotient \<open>sampling_frec / bits_num\<close> of two Python ints
  raises \<open>ZeroDivisionError\<close> when \<open>bits_num\<close> is 0; \<open>int\<close> of the quotient of two
  non-negative ints is the floor.\<close>

definition ASK_init :: "nat \<Rightarrow> nat \<Rightarrow> nat \<Rightarrow> real \<Rightarrow> py_error + ASK" where
  "ASK_init sf cf bn nz =
     (if bn = 0 then Inl ZeroDivisionError
      else Inr \<lparr>sampling_frec = sf, carry_frec = cf, bits_num = bn, noise = nz,
                time = np_linspace01 sf, samp_per_bit = sf div bn\<rparr>)"

definition generateCarryWave :: "ASK \<Rightarrow> real list" where
  "generateCarryWave a = map (\<lambda>t. sin (2 * pi * real (carry_frec a) * t)) (time a)"

definition modulation :: "ASK \<Rightarrow> int list \<Rightarrow> real list \<Rightarrow> py_error + real list" where
  "modulation a message carry_wave =
     (let cont_msg = np_repeat message (samp_per_bit a)
      in np_binop (\<lambda>c m. c * real_of_int m) carry_wave cont_msg)"

text \<open>The first loop of \<open>demodulation\<close>: \<open>for i in range(sampling_frec)\<close>, reading
  \<open>signal[i]\<close> (an \<open>IndexError\<close> past the end of the signal) and writing
  \<open>recieved_signal[i]\<close>.\<close>

fun threshold_loop :: "real list \<Rightarrow> nat list \<Rightarrow> real list \<Rightarrow> py_error + real list" where
  "threshold_loop signal [] recieved_signal = Inr recieved_signal"
| "threshold_loop signal (i # is) recieved_signal =
     (if i < length signal
      then threshold_loop signal is
             (recieved_signal[i := (if signal ! i > 0.4 then 1 else 0)])
      else Inl IndexError)"

text \<open>The second loop: one majority vote per section, appended to the message.\<close>

fun vote_loop :: "nat \<Rightarrow> real list list \<Rightarrow> int list \<Rightarrow> int list" where
  "vote_loop spb [] recieved_message = recieved_message"
| "vote_loop spb (array # splited) recieved_message =
     (let arr_sum = sum_list array
      in if arr_sum > real spb / 2
         then vote_loop spb splited (recieved_message @ [1])
         else vote_loop spb splited (recieved_message @ [0]))"

definition demodulation :: "ASK \<Rightarrow> real list \<Rightarrow> py_error + int list" where
  "demodulation a signal =
     (let recieved_signal = replicate (sampling_frec a) 0;
          signal' = map abs signal
      in case threshold_loop signal' [0..<sampling_frec a] recieved_signal of
           Inl e \<Rightarrow> Inl e
         | Inr recieved_signal' \<Rightarrow>
             (case np_split recieved_signal' (bits_num a) of
                Inl e \<Rightarrow> Inl e
              | Inr splited \<Rightarrow> Inr (vote_loop (samp_per_bit a) splited [])))"

text \<open>\<open>calculateBER\<close>: \<open>np.sum\<close> of the element-wise \<open>!=\<close> counts the positions that
  differ; the count is a NumPy integer, so the division follows \<open>np_true_divide\<close>.\<close>

definition calculateBER :: "ASK \<Rightarrow> int list \<Rightarrow> int list \<Rightarrow> py_error + np_float" where
  "calculateBER a original_message received_message =
     (case np_binop (\<lambda>x y. x \<noteq> y) original_message received_message of
        Inl e \<Rightarrow> Inl e
      | Inr neq \<Rightarrow>
          (let errors = length (filter (\<lambda>b. b) neq)
           in Inr (np_true_divide errors (bits_num a))))"

subsection \<open>Random draws\<close>

text \<open>NumPy's process-wide generator is an explicit state: a stream of fair bits for
  \<open>np.random.randint(2, ...)\<close> and a stream of standard normal draws for
  \<open>np.random.normal\<close>; drawing \<open>n\<close> values consumes the first \<open>n\<close> of the stream.\<close>

record rng =
  next_bits :: "nat \<Rightarrow> bool"
  next_normals :: "nat \<Rightarrow> real"

definition generateSignal :: "ASK \<Rightarrow> rng \<Rightarrow> int list \<times> rng" where
  "generateSignal a g =
     (map (\<lambda>k. if next_bits g k then 1 else 0) [0..<bits_num a],
      g\<lparr>next_bits := \<lambda>k. next_bits g (k + bits_num a)\<rparr>)"

text \<open>\<open>np.random.normal(0, scale, n)\<close> raises \<open>ValueError\<close> for a negative scale and
  otherwise returns \<open>0 + scale * z\<close> for \<open>n\<close> standard normal draws \<open>z\<close>.\<close>

definition addNoise :: "ASK \<Rightarrow> real list \<Rightarrow> rng \<Rightarrow> py_error + (real list \<times> rng)" where
  "addNoise a signal g =
     (if noise a < 0 then Inl ValueError
      else
        let n = length signal;
            noise_samples = map (\<lambda>k. 0 + noise a * next_normals g k) [0..<n];
            g' = g\<lparr>next_normals := \<lambda>k. next_normals g (k + n)\<rparr>
        in case np_binop (\<lambda>x y. x + y) signal noise_samples of
             Inl e \<Rightarrow> Inl e
           | Inr noisy_signal \<Rightarrow> Inr (noisy_signal, g'))"

subsection \<open>The results table\<close>

text \<open>The part of the file system the simulator touches: whether the directory
  \<open>data/output\<close> exists, and the content of \<open>data/output/bers.csv\<close> when the file
  exists.\<close>

record filesystem =
  output_dir :: bool
  bers_csv :: "string option"

datatype py_value = PyStr string | PyInt int | PyFloat np_float

definition digit_char :: "nat \<Rightarrow> char" where
  "digit_char d = ''0123456789'' ! d"

fun str_nat :: "nat \<Rightarrow> string" where
  "str_nat n = (if n < 10 then [digit_char n] else str_nat (n div 10) @ [digit_char (n mod 10)])"

declare str_nat.simps [simp del]

definition str_int :: "int \<Rightarrow> string" where
  "str_int i = (if i < 0 then CHR ''-'' # str_nat (nat (- i)) else str_nat (nat i))"

text \<open>\<open>str\<close> of a field. The decimal text of a float is not modelled: it is the
  parameter \<open>fmt\<close>.\<close>

fun str_value :: "(np_float \<Rightarrow> string) \<Rightarrow> py_value \<Rightarrow> string" where
  "str_value fmt (PyStr s) = s"
| "str_value fmt (PyInt i) = str_int i"
| "str_value fmt (PyFloat x) = fmt x"

text \<open>\<open>csv.writer(csvfile, delimiter=';').writerow\<close> with the default dialect
  otherwise: minimal quoting (a field holding the delimiter, a double quote, a carriage
  return or a line feed is wrapped in double quotes, its double quotes doubled), fields
  joined by the delimiter, the line ended by CR LF.\<close>

definition csv_special :: "char \<Rightarrow> char \<Rightarrow> bool" where
  "csv_special delimiter c \<longleftrightarrow>
     c = delimiter \<or> c = CHR 0x22 \<or> c = CHR 0x0D \<or> c = CHR 0x0A"

definition csv_field :: "char \<Rightarrow> string \<Rightarrow> string" where
  "csv_field delimiter s =
     (if list_ex (csv_special delimiter) s
      then CHR 0x22 # concat (map (\<lambda>c. if c = CHR 0x22 then [c, c] else [c]) s) @ [CHR 0x22]
      else s)"

fun join_fields :: "char \<Rightarrow> string list \<Rightarrow> string" where
  "join_fields delimiter [] = []"
| "join_fields delimiter [f] = f"
| "join_fields delimiter (f # fs) = f @ delimiter # join_fields delimiter fs"

definition writerow :: "char \<Rightarrow> (np_float \<Rightarrow> string) \<Rightarrow> py_value list \<Rightarrow> string" where
  "writerow delimiter fmt row =
     join_fields delimiter (map (\<lambda>v. csv_field delimiter (str_value fmt v)) row)
       @ [CHR 0x0D, CHR 0x0A]"

text \<open>\<open>save_to_csv\<close>: opening for append creates a missing file and fails when the
  directory is missing.\<close>

definition save_to_csv ::
    "(np_float \<Rightarrow> string) \<Rightarrow> ASK \<Rightarrow> np_float \<Rightarrow> int \<Rightarrow> filesystem \<Rightarrow> py_error + filesystem" where
  "save_to_csv fmt a float_data EbNodB fs =
     (if \<not> output_dir fs then Inl FileNotFoundError
      else
        let old = (case bers_csv fs of None \<Rightarrow> [] | Some content \<Rightarrow> content);
            row = [PyStr ''ASK'', PyInt (int (sampling_frec a)), PyInt (int (carry_frec a)),
                   PyInt (int (bits_num a)), PyFloat (Finite (np_round1 (noise a))),
                   PyFloat float_data, PyInt EbNodB]
        in Inr (fs\<lparr>bers_csv := Some (old @ writerow CHR '';'' fmt row)\<rparr>))"

subsection \<open>Runs\<close>

definition one_run ::
    "(np_float \<Rightarrow> string) \<Rightarrow> ASK \<Rightarrow> int \<Rightarrow> rng \<Rightarrow> filesystem \<Rightarrow> py_error + (rng \<times> filesystem)" where
  "one_run fmt a EbNodB g fs =
     (let carry_wave = generateCarryWave a;
          (message, g1) = generateSignal a g
      in case modulation a message carry_wave of
           Inl e \<Rightarrow> Inl e
         | Inr signal \<Rightarrow>
             (case addNoise a signal g1 of
                Inl e \<Rightarrow> Inl e
              | Inr (noisy_signal, g2) \<Rightarrow>
                  (case demodulation a noisy_signal of
                     Inl e \<Rightarrow> Inl e
                   | Inr received_signal \<Rightarrow>
                       (case calculateBER a message received_signal of
                          Inl e \<Rightarrow> Inl e
                        | Inr ber \<Rightarrow>
                            (case save_to_csv fmt a ber EbNodB fs of
                               Inl e \<Rightarrow> Inl e
                             | Inr fs' \<Rightarrow> Inr (g2, fs'))))))"

text \<open>\<open>simulate\<close>: the loop \<open>for n in range(12)\<close> assigns the noise level and calls
  \<open>one_run(n)\<close>; an exception of a run ends the sweep. The closing \<open>print\<close> is not
  modelled.\<close>

fun simulate_loop ::
    "(np_float \<Rightarrow> string) \<Rightarrow> nat list \<Rightarrow> ASK \<Rightarrow> rng \<Rightarrow> filesystem
      \<Rightarrow> py_error + (ASK \<times> rng \<times> filesystem)" where
  "simulate_loop fmt [] a g fs = Inr (a, g, fs)"
| "simulate_loop fmt (n # ns) a g fs =
     (let EbNo = 10 powr (real n / 10);
          a' = a\<lparr>noise := 1 / sqrt (2 * EbNo) * 2\<rparr>
      in case one_run fmt a' (int n) g fs of
           Inl e \<Rightarrow> Inl e
         | Inr (g', fs') \<Rightarrow> simulate_loop fmt ns a' g' fs')"

definition simulate ::
    "(np_float \<Rightarrow> string) \<Rightarrow> ASK \<Rightarrow> rng \<Rightarrow> filesystem \<Rightarrow> py_error + (ASK \<times> rng \<times> filesystem)" where
  "simulate fmt a g fs = simulate_loop fmt [0..<12] a g fs"

text \<open>The invocation surface: a caller constructs a simulator from the four parameters
  and calls \<open>one_run\<close> on it.\<close>

definition construct_and_run ::
    "(np_float \<Rightarrow> string) \<Rightarrow> nat \<Rightarrow> nat \<Rightarrow> nat \<Rightarrow> real \<Rightarrow> int \<Rightarrow> rng \<Rightarrow> filesystem
      \<Rightarrow> py_error + (rng \<times> filesystem)" where
  "construct_and_run fmt sf cf bn nz EbNodB g fs =
     (case ASK_init sf cf bn nz of
        Inl e \<Rightarrow> Inl e
      | Inr a \<Rightarrow> one_run fmt a EbNodB g fs)"

section \<open>Properties\<close>

subsection \<open>Auxiliary facts\<close>

lemma fold_update_length:
  "length (fold (\<lambda>i r. r[i := f i]) js rs) = length rs"
  by (induction js arbitrary: rs) auto

lemma fold_update_nth:
  "j < length rs \<Longrightarrow>
   fold (\<lambda>i r. r[i := f i]) js rs ! j = (if j \<in> set js then f j else rs ! j)"
proof (induction js arbitrary: rs)
  case Nil
  then show ?case by simp
next
  case (Cons i js)
  then show ?case by (cases "i = j") auto
qed

lemma threshold_loop_fold:
  "threshold_loop sig js rs =
     (if \<forall>i\<in>set js. i < length sig
      then Inr (fold (\<lambda>i r. r[i := (if sig ! i > 0.4 then 1 else 0)]) js rs)
      else Inl IndexError)"
  by (induction js arbitrary: rs) auto

lemma threshold_loop_upt:
  "threshold_loop sig [0..<n] (replicate n 0) =
     (if length sig < n then Inl IndexError
      else Inr (map (\<lambda>x. if x > 0.4 then 1 else 0) (take n sig)))"
proof (cases "length sig < n")
  case True
  then have "\<not> (\<forall>i\<in>set [0..<n]. i < length sig)" by auto
  then show ?thesis by (auto simp: threshold_loop_fold)
next
  case False
  then have all: "\<forall>i\<in>set [0..<n]. i < length sig" by auto
  have "fold (\<lambda>i r. r[i := (if sig ! i > 0.4 then 1 else 0)]) [0..<n] (replicate n 0)
        = map (\<lambda>x. if x > 0.4 then 1 else (0::real)) (take n sig)"
    using False by (intro nth_equalityI) (simp_all add: fold_update_length fold_update_nth)
  with False show ?thesis by (auto simp: threshold_loop_fold)
qed

lemma vote_loop_map:
  "vote_loop spb xs acc = acc @ map (\<lambda>arr. if sum_list arr > real spb / 2 then 1 else 0) xs"
  by (induction xs arbitrary: acc) (auto simp: Let_def)

lemma demodulation_eq:
  "demodulation a s =
     (if length s < sampling_frec a then Inl IndexError
      else if bits_num a = 0 then Inl ZeroDivisionError
      else if sampling_frec a mod bits_num a \<noteq> 0 then Inl ValueError
      else Inr (map (\<lambda>k. if real (samp_per_bit a) / 2
                              < sum_list (take (sampling_frec a div bits_num a)
                                   (drop (k * (sampling_frec a div bits_num a))
                                      (map (\<lambda>x. if 0.4 < \<bar>x\<bar> then 1 else 0) (take (sampling_frec a) s))))
                           then 1 else 0) [0..<bits_num a]))"
  by (simp add: demodulation_def Let_def threshold_loop_upt np_split_def vote_loop_map
      take_map o_def)

lemma length_np_linspace01: "length (np_linspace01 n) = n"
  by (simp add: np_linspace01_def)

lemma length_generateCarryWave: "length (generateCarryWave a) = length (time a)"
  by (simp add: generateCarryWave_def)

lemma length_np_repeat: "length (np_repeat xs n) = length xs * n"
  by (induction xs) (auto simp: np_repeat_def)

lemma ASK_init_Inr:
  "ASK_init sf cf bn nz = Inr a \<Longrightarrow>
     bn \<noteq> 0 \<and> sampling_frec a = sf \<and> carry_frec a = cf \<and> bits_num a = bn \<and> noise a = nz
     \<and> time a = np_linspace01 sf \<and> samp_per_bit a = sf div bn"
  by (auto simp: ASK_init_def split: if_splits)

lemma modulation_init:
  assumes "ASK_init sf cf bn nz = Inr a" and "length message = bn"
  shows "modulation a message (generateCarryWave a) =
           (if sf mod bn = 0
            then Inr (map2 (\<lambda>c m. c * real_of_int m) (generateCarryWave a)
                        (np_repeat message (sf div bn)))
            else if sf = 1 then Inr [] else Inl ValueError)"
proof -
  note i = ASK_init_Inr [OF assms(1)]
  have lc: "length (generateCarryWave a) = sf"
    using i by (simp add: length_generateCarryWave length_np_linspace01)
  have lm: "length (np_repeat message (samp_per_bit a)) = bn * (sf div bn)"
    using i assms(2) by (simp add: length_np_repeat)
  show ?thesis
  proof (cases "sf mod bn = 0")
    case True
    then have "bn * (sf div bn) = sf" by auto
    with lc lm i True show ?thesis by (simp add: modulation_def np_binop_def)
  next
    case False
    then have ne: "bn * (sf div bn) \<noteq> sf" by (metis mod_mult_self1_is_0)
    from False have bn2: "bn \<noteq> 1" by auto
    show ?thesis
    proof (cases "sf = 1")
      case True
      with i bn2 have "sf div bn = 0" by (cases bn) auto
      with lm have "np_repeat message (samp_per_bit a) = []" by simp
      moreover from lc True obtain c where "generateCarryWave a = [c]"
        by (cases "generateCarryWave a") auto
      ultimately show ?thesis using True False by (simp add: modulation_def np_binop_def)
    next
      case sf1: False
      have "bn * (sf div bn) \<noteq> 1" using bn2 by auto
      with lc lm ne sf1 False show ?thesis by (simp add: modulation_def np_binop_def)
    qed
  qed
qed

text \<open>
  Claim C9. Demodulation is invariant under negating its input signal: only the absolute
  value of each sample is inspected, so the negated signal gives the same result, the same
  exception included.
\<close>
theorem demodulation_negate: "demodulation a (map uminus signal) = demodulation a signal"
  by (simp add: demodulation_def o_def)

text \<open>
  Claim C10. Constructing the simulator with a bit count of zero fails with a division by
  zero while computing the samples per bit, so no constructed instance has a bit count of
  zero.
\<close>
theorem ASK_init_zero_bits_num:
  "ASK_init sf cf 0 nz = Inl ZeroDivisionError
   \<and> \<not> (\<exists>a. ASK_init sf cf bn nz = Inr a \<and> bits_num a = 0)"
  by (auto simp: ASK_init_def split: if_splits)

theorem ASK_init_zero_bits_num_witness:
  "ASK_init 1000 10 0 0 = Inl ZeroDivisionError
   \<and> \<not> (\<exists>a. ASK_init 1000 10 10 0 = Inr a \<and> bits_num a = 0)"
  using ASK_init_zero_bits_num [of 1000 10 0 10] by simp

text \<open>
  Claim C6, as the code has it. When the sampling frequency is not an exact multiple of the
  bit count, the carrier wave has \<open>sampling_frec\<close> samples and the expanded message has
  \<open>samp_per_bit * bits_num\<close>, fewer; the element-wise product of two arrays of different
  lengths is not cut to the shorter one, it raises \<open>ValueError\<close>. The one exception is a
  sampling frequency of 1, where the carrier of length one is broadcast over the empty
  expanded message and the result is the empty signal.
\<close>
theorem modulation_inexact_division:
  assumes "ASK_init sf cf bn nz = Inr a" and "sf mod bn \<noteq> 0" and "length message = bn"
  shows "modulation a message (generateCarryWave a) = (if sf = 1 then Inr [] else Inl ValueError)"
  using modulation_init [OF assms(1) assms(3)] assms(2) by simp

theorem modulation_inexact_division_witness:
  "ASK_init 7 1 2 0 = Inr \<lparr>sampling_frec = 7, carry_frec = 1, bits_num = 2, noise = 0,
                            time = np_linspace01 7, samp_per_bit = 3\<rparr>
   \<and> modulation \<lparr>sampling_frec = 7, carry_frec = 1, bits_num = 2, noise = 0,
                  time = np_linspace01 7, samp_per_bit = 3\<rparr> [1, 0]
        (generateCarryWave \<lparr>sampling_frec = 7, carry_frec = 1, bits_num = 2, noise = 0,
                  time = np_linspace01 7, samp_per_bit = 3\<rparr>) = Inl ValueError"
proof -
  have i: "ASK_init 7 1 2 0 = Inr \<lparr>sampling_frec = 7, carry_frec = 1, bits_num = 2, noise = 0,
                            time = np_linspace01 7, samp_per_bit = 3\<rparr>"
    by (simp add: ASK_init_def)
  from modulation_inexact_division [OF i, of "[1, 0]"] i show ?thesis by simp
qed

theorem modulation_inexact_division_counterexample:
  "ASK_init 10 1 3 0 = Inr \<lparr>sampling_frec = 10, carry_frec = 1, bits_num = 3, noise = 0,
                            time = np_linspace01 10, samp_per_bit = 3\<rparr>
   \<and> modulation \<lparr>sampling_frec = 10, carry_frec = 1, bits_num = 3, noise = 0,
                  time = np_linspace01 10, samp_per_bit = 3\<rparr> [1, 0, 1]
        (generateCarryWave \<lparr>sampling_frec = 10, carry_frec = 1, bits_num = 3, noise = 0,
                  time = np_linspace01 10, samp_per_bit = 3\<rparr>) = Inl ValueError"
proof -
  have i: "ASK_init 10 1 3 0 = Inr \<lparr>sampling_frec = 10, carry_frec = 1, bits_num = 3, noise = 0,
                            time = np_linspace01 10, samp_per_bit = 3\<rparr>"
    by (simp add: ASK_init_def)
  from modulation_init [OF i, of "[1, 0, 1]"] i show ?thesis by simp
qed

text \<open>
  Claim C7, as the code has it. When the sampling frequency is not evenly divisible by the
  bit count, demodulation returns no message for any signal: a signal shorter than the
  sampling frequency raises \<open>IndexError\<close> in the threshold loop, and any other signal
  raises \<open>ValueError\<close> when the thresholded sequence is split into \<open>bits_num\<close> equal
  sections. A whole run on such a configuration ends in an exception as well.
\<close>
theorem demodulation_inexact_division:
  assumes "ASK_init sf cf bn nz = Inr a" and "sf mod bn \<noteq> 0"
  shows "demodulation a signal = Inl (if length signal < sf then IndexError else ValueError)
         \<and> (\<exists>e. one_run fmt a EbNodB g fs = Inl e)"
proof
  note i = ASK_init_Inr [OF assms(1)]
  show "demodulation a signal = Inl (if length signal < sf then IndexError else ValueError)"
    using i assms(2) by (simp add: demodulation_eq)
  have lm: "length (fst (generateSignal a g)) = bn"
    using i by (simp add: generateSignal_def)
  note m = modulation_init [OF assms(1) lm]
  show "\<exists>e. one_run fmt a EbNodB g fs = Inl e"
  proof (cases "sf = 1")
    case True
    then have d: "demodulation a [] = Inl IndexError" using i by (simp add: demodulation_eq)
    from m True assms(2) have "modulation a (fst (generateSignal a g)) (generateCarryWave a) = Inr []" by simp
    with d show ?thesis
      by (auto simp: one_run_def Let_def addNoise_def np_binop_def split: prod.splits sum.splits)
  next
    case False
    with m assms(2) have "modulation a (fst (generateSignal a g)) (generateCarryWave a) = Inl ValueError" by simp
    then show ?thesis by (auto simp: one_run_def Let_def split: prod.splits)
  qed
qed

theorem demodulation_inexact_division_witness:
  "ASK_init 7 1 2 0 = Inr \<lparr>sampling_frec = 7, carry_frec = 1, bits_num = 2, noise = 0,
                            time = np_linspace01 7, samp_per_bit = 3\<rparr>
   \<and> demodulation \<lparr>sampling_frec = 7, carry_frec = 1, bits_num = 2, noise = 0,
                  time = np_linspace01 7, samp_per_bit = 3\<rparr> [1, 1, 1, 0, 0, 0, 0] = Inl ValueError
   \<and> demodulation \<lparr>sampling_frec = 7, carry_frec = 1, bits_num = 2, noise = 0,
                  time = np_linspace01 7, samp_per_bit = 3\<rparr> [1, 1, 1, 0, 0, 0] = Inl IndexError"
proof -
  have i: "ASK_init 7 1 2 0 = Inr \<lparr>sampling_frec = 7, carry_frec = 1, bits_num = 2, noise = 0,
                            time = np_linspace01 7, samp_per_bit = 3\<rparr>"
    by (simp add: ASK_init_def)
  from demodulation_inexact_division [OF i, of "[1, 1, 1, 0, 0, 0, 0]"]
       demodulation_inexact_division [OF i, of "[1, 1, 1, 0, 0, 0]"] i
  show ?thesis by simp
qed

theorem demodulation_inexact_division_counterexample:
  "ASK_init 10 1 3 0 = Inr \<lparr>sampling_frec = 10, carry_frec = 1, bits_num = 3, noise = 0,
                            time = np_linspace01 10, samp_per_bit = 3\<rparr>
   \<and> demodulation \<lparr>sampling_frec = 10, carry_frec = 1, bits_num = 3, noise = 0,
                  time = np_linspace01 10, samp_per_bit = 3\<rparr> (replicate 10 0) = Inl ValueError"
  by (simp add: ASK_init_def demodulation_eq)

text \<open>
  Claim C8, as the code has it. With a bit count of zero the division by zero is raised by
  the constructor, so a caller that constructs a simulator and runs it gets
  \<open>ZeroDivisionError\<close> before any stage of the pipeline; the error-rate computation is
  not the place of the fault, and it raises no \<open>ZeroDivisionError\<close> for any instance and
  any pair of messages.
\<close>
theorem zero_bits_num_fails_at_construction:
  "construct_and_run fmt sf cf 0 nz EbNodB g fs = Inl ZeroDivisionError
   \<and> calculateBER a original_message received_message \<noteq> Inl ZeroDivisionError"
  by (auto simp: construct_and_run_def ASK_init_def calculateBER_def np_binop_def Let_def)

theorem zero_bits_num_counterexample:
  "ASK_init 1000 10 0 0 = Inl ZeroDivisionError
   \<and> calculateBER \<lparr>sampling_frec = 1000, carry_frec = 10, bits_num = 0, noise = 0,
                    time = np_linspace01 1000, samp_per_bit = 0\<rparr> [1] [0] = Inr PosInf"
  by (simp add: ASK_init_def calculateBER_def np_binop_def np_true_divide_def)

lemma errors_card:
  assumes "length om = length rm"
  shows "length (filter (\<lambda>b. b) (map2 (\<lambda>x y. x \<noteq> y) om rm))
         = card {i. i < length om \<and> om ! i \<noteq> rm ! i}"
proof -
  have "{i. i < length (map2 (\<lambda>x y. x \<noteq> y) om rm) \<and> map2 (\<lambda>x y. x \<noteq> y) om rm ! i}
        = {i. i < length om \<and> om ! i \<noteq> rm ! i}"
    using assms by auto
  then show ?thesis by (simp only: length_filter_conv_card)
qed

lemma card_differ_le: "card {i. i < n \<and> P i} \<le> n"
proof -
  have "card {i. i < n \<and> P i} \<le> card {..<n}"
    by (rule card_mono) auto
  then show ?thesis by simp
qed

text \<open>
  Claim C3, as the code has it. For a positive bit count and two sequences of equal length,
  \<open>calculateBER\<close> returns the number of positions where they differ divided by the bit
  count. The divisor is the field \<open>bits_num\<close>, not the length of the sequences, so the
  value is never negative but lies in [0, 1] only when the sequences have no more than
  \<open>bits_num\<close> elements, as a message and a received message have; two sequences of two
  bits that differ everywhere give 2 on a simulator of one bit. The example of the
  specification, \<open>[1,0,1,1,0]\<close> against \<open>[1,1,1,0,0]\<close> with five bits, gives 2/5.
\<close>

theorem calculateBER_fraction:
  assumes "0 < bits_num a" and "length om = length rm"
  shows "calculateBER a om rm
           = Inr (Finite (real (card {i. i < length om \<and> om ! i \<noteq> rm ! i}) / real (bits_num a)))
         \<and> 0 \<le> real (card {i. i < length om \<and> om ! i \<noteq> rm ! i}) / real (bits_num a)
         \<and> (length om \<le> bits_num a \<longrightarrow>
              real (card {i. i < length om \<and> om ! i \<noteq> rm ! i}) / real (bits_num a) \<le> 1)"
proof (intro conjI impI)
  show "calculateBER a om rm
           = Inr (Finite (real (card {i. i < length om \<and> om ! i \<noteq> rm ! i}) / real (bits_num a)))"
  proof -
    have "calculateBER a om rm
            = Inr (np_true_divide (length (filter (\<lambda>b. b) (map2 (\<lambda>x y. x \<noteq> y) om rm))) (bits_num a))"
      unfolding calculateBER_def np_binop_def Let_def using assms(2) by simp
    also have "\<dots> = Inr (Finite (real (card {i. i < length om \<and> om ! i \<noteq> rm ! i}) / real (bits_num a)))"
      unfolding errors_card [OF assms(2)] np_true_divide_def using assms(1) by simp
    finally show ?thesis .
  qed
  show "0 \<le> real (card {i. i < length om \<and> om ! i \<noteq> rm ! i}) / real (bits_num a)"
    by simp
  assume "length om \<le> bits_num a"
  with card_differ_le [of "length om" "\<lambda>i. om ! i \<noteq> rm ! i"]
  have "card {i. i < length om \<and> om ! i \<noteq> rm ! i} \<le> bits_num a" by linarith
  with assms(1) show "real (card {i. i < length om \<and> om ! i \<noteq> rm ! i}) / real (bits_num a) \<le> 1"
    by simp
qed

theorem calculateBER_fraction_witness:
  "calculateBER \<lparr>sampling_frec = 1000, carry_frec = 10, bits_num = 5, noise = 0,
                  time = np_linspace01 1000, samp_per_bit = 200\<rparr> [1, 0, 1, 1, 0] [1, 1, 1, 0, 0]
     = Inr (Finite (2 / 5))
   \<and> real (card {i. i < length [1, 0, 1, 1, 0 :: int]
                    \<and> [1, 0, 1, 1, 0 :: int] ! i \<noteq> [1, 1, 1, 0, 0] ! i}) / real 5 = 2 / 5
   \<and> (2::real) / 5 \<le> 1"
  using calculateBER_fraction [of "\<lparr>sampling_frec = 1000, carry_frec = 10, bits_num = 5, noise = 0,
                  time = np_linspace01 1000, samp_per_bit = 200\<rparr>" "[1, 0, 1, 1, 0]" "[1, 1, 1, 0, 0]"]
  by (simp add: calculateBER_def np_binop_def np_true_divide_def)

theorem calculateBER_fraction_counterexample:
  "ASK_init 2 1 1 0 = Inr \<lparr>sampling_frec = 2, carry_frec = 1, bits_num = 1, noise = 0,
                           time = np_linspace01 2, samp_per_bit = 2\<rparr>
   \<and> length [0, 0 :: int] = length [1, 1 :: int]
   \<and> calculateBER \<lparr>sampling_frec = 2, carry_frec = 1, bits_num = 1, noise = 0,
                    time = np_linspace01 2, samp_per_bit = 2\<rparr> [0, 0] [1, 1] = Inr (Finite 2)
   \<and> \<not> (2 :: real) \<le> 1"
  by (simp add: ASK_init_def calculateBER_def np_binop_def np_true_divide_def)

text \<open>
  Claim C2. In a demodulation that returns a message, the threshold loop gives chip 0 for a
  sample whose absolute value is exactly 0.4 (or below) and chip 1 for one whose absolute
  value exceeds 0.4; the message has \<open>bits_num\<close> bits, and bit \<open>k\<close> is 1 exactly when the
  chips of section \<open>k\<close> sum to strictly more than \<open>samp_per_bit / 2\<close>.
\<close>
theorem demodulation_threshold_and_vote:
  assumes "demodulation a signal = Inr r"
  shows "let chips = map (\<lambda>x. if 0.4 < \<bar>x\<bar> then 1 else 0) (take (sampling_frec a) signal);
             seg = sampling_frec a div bits_num a
         in threshold_loop (map abs signal) [0..<sampling_frec a] (replicate (sampling_frec a) 0)
              = Inr chips
          \<and> (\<forall>i<sampling_frec a. chips ! i = (if \<bar>signal ! i\<bar> = 0.4 then 0
                                               else if 0.4 < \<bar>signal ! i\<bar> then 1 else 0))
          \<and> length r = bits_num a
          \<and> (\<forall>k<bits_num a.
               r ! k = (if real (samp_per_bit a) / 2 < sum_list (take seg (drop (k * seg) chips))
                        then 1 else 0))"
proof -
  from assms have ok: "\<not> length signal < sampling_frec a" "bits_num a \<noteq> 0"
      "sampling_frec a mod bits_num a = 0"
    by (auto simp: demodulation_eq split: if_splits)
  with assms have r: "r = map (\<lambda>k. if real (samp_per_bit a) / 2
                              < sum_list (take (sampling_frec a div bits_num a)
                                   (drop (k * (sampling_frec a div bits_num a))
                                      (map (\<lambda>x. if 0.4 < \<bar>x\<bar> then 1 else 0) (take (sampling_frec a) signal))))
                           then 1 else 0) [0..<bits_num a]"
    by (simp add: demodulation_eq)
  have t: "threshold_loop (map abs signal) [0..<sampling_frec a] (replicate (sampling_frec a) 0)
        = Inr (map (\<lambda>x. if 0.4 < \<bar>x\<bar> then 1 else 0) (take (sampling_frec a) signal))"
    using ok(1) by (simp add: threshold_loop_upt take_map o_def)
  show ?thesis
    unfolding Let_def
  proof (intro conjI allI impI)
    show "threshold_loop (map abs signal) [0..<sampling_frec a] (replicate (sampling_frec a) 0)
        = Inr (map (\<lambda>x. if 0.4 < \<bar>x\<bar> then 1 else 0) (take (sampling_frec a) signal))"
      by (rule t)
    show "length r = bits_num a" by (simp add: r)
  next
    fix i assume "i < sampling_frec a"
    with ok(1) show "map (\<lambda>x. if 0.4 < \<bar>x\<bar> then 1 else 0) (take (sampling_frec a) signal) ! i
       = (if \<bar>signal ! i\<bar> = 0.4 then 0 else if 0.4 < \<bar>signal ! i\<bar> then 1 else (0::real))"
      by simp
  next
    fix k assume "k < bits_num a"
    then show "r ! k = (if real (samp_per_bit a) / 2
         < sum_list (take (sampling_frec a div bits_num a) (drop (k * (sampling_frec a div bits_num a))
              (map (\<lambda>x. if 0.4 < \<bar>x\<bar> then 1 else 0) (take (sampling_frec a) signal))))
                        then 1 else 0)"
      by (simp add: r)
  qed
qed

theorem demodulation_threshold_and_vote_witness:
  "demodulation \<lparr>sampling_frec = 4, carry_frec = 1, bits_num = 2, noise = 0,
                  time = np_linspace01 4, samp_per_bit = 2\<rparr> [0.4001, - 0.4001, 0.4, 0.4001]
     = Inr [1, 0]
   \<and> threshold_loop (map abs [0.4001, - 0.4001, 0.4, 0.4001]) [0..<4] (replicate 4 0)
       = Inr [1, 1, 0, 1]"
proof -
  let ?a = "\<lparr>sampling_frec = 4, carry_frec = 1, bits_num = 2, noise = 0,
                  time = np_linspace01 4, samp_per_bit = 2\<rparr>"
  have d: "demodulation ?a [0.4001, - 0.4001, 0.4, 0.4001] = Inr [1, 0]"
    by (simp add: demodulation_eq upt_rec)
  from demodulation_threshold_and_vote [OF d] d show ?thesis
    by (simp add: Let_def)
qed











lemma one_run_total:
  assumes bn: "bits_num a \<noteq> 0"
    and spb: "samp_per_bit a * bits_num a = sampling_frec a"
    and tm: "length (time a) = sampling_frec a"
    and nz: "0 \<le> noise a"
    and dir: "output_dir fs"
  shows "\<exists>g' fs'. one_run fmt a EbNodB g fs = Inr (g', fs') \<and> output_dir fs'"
proof -
  obtain message g1 where gs: "generateSignal a g = (message, g1)" by (cases "generateSignal a g")
  then have lm: "length message = bits_num a" by (auto simp: generateSignal_def)
  have lc: "length (generateCarryWave a) = sampling_frec a"
    using tm by (simp add: length_generateCarryWave)
  have lr: "length (np_repeat message (samp_per_bit a)) = sampling_frec a"
    using lm spb by (simp add: length_np_repeat mult.commute)
  obtain signal where m: "modulation a message (generateCarryWave a) = Inr signal"
    and ls: "length signal = sampling_frec a"
    using lc lr by (simp add: modulation_def np_binop_def)
  obtain noisy_signal g2 where n: "addNoise a signal g1 = Inr (noisy_signal, g2)"
    and ln: "length noisy_signal = sampling_frec a"
    using nz ls by (simp add: addNoise_def np_binop_def Let_def)
  from spb have dv: "sampling_frec a mod bits_num a = 0" by (metis mod_mult_self2_is_0)
  obtain received_signal where d: "demodulation a noisy_signal = Inr received_signal"
    and lrs: "length received_signal = bits_num a"
    using ln bn dv by (simp add: demodulation_eq)
  obtain ber where b: "calculateBER a message received_signal = Inr ber"
    using lm lrs by (simp add: calculateBER_def np_binop_def)
  obtain fs' where s: "save_to_csv fmt a ber EbNodB fs = Inr fs'" and d': "output_dir fs'"
    using dir by (simp add: save_to_csv_def Let_def)
  from gs m n d b s d' show ?thesis by (simp add: one_run_def)
qed

lemma simulate_loop_total:
  assumes "bits_num a \<noteq> 0" and "samp_per_bit a * bits_num a = sampling_frec a"
    and "length (time a) = sampling_frec a" and "output_dir fs"
  shows "\<exists>a' g' fs'. simulate_loop fmt ns a g fs = Inr (a', g', fs')"
  using assms
proof (induction ns arbitrary: a g fs)
  case Nil
  then show ?case by simp
next
  case (Cons n ns)
  let ?a = "a\<lparr>noise := 1 / sqrt (2 * 10 powr (real n / 10)) * 2\<rparr>"
  have "\<exists>g' fs'. one_run fmt ?a (int n) g fs = Inr (g', fs') \<and> output_dir fs'"
    using Cons.prems by (intro one_run_total) simp_all
  then obtain g1 fs1 where r: "one_run fmt ?a (int n) g fs = Inr (g1, fs1)" and d: "output_dir fs1"
    by blast
  have "\<exists>a' g' fs'. simulate_loop fmt ns ?a g1 fs1 = Inr (a', g', fs')"
    using Cons.prems d by (intro Cons.IH) simp_all
  with r show ?case by (simp add: Let_def)
qed

lemma simulate_loop_chain:
  assumes "simulate_loop fmt ns a g fs = Inr (a', g', fs')"
  shows "\<exists>gs fss. gs 0 = g \<and> fss 0 = fs \<and> gs (length ns) = g' \<and> fss (length ns) = fs'
           \<and> (\<forall>i<length ns.
                 one_run fmt (a\<lparr>noise := 1 / sqrt (2 * 10 powr (real (ns ! i) / 10)) * 2\<rparr>)
                   (int (ns ! i)) (gs i) (fss i) = Inr (gs (Suc i), fss (Suc i)))
           \<and> a' = (if ns = [] then a
                    else a\<lparr>noise := 1 / sqrt (2 * 10 powr (real (last ns) / 10)) * 2\<rparr>)"
  using assms
proof (induction ns arbitrary: a g fs)
  case Nil
  then show ?case by (intro exI [of _ "\<lambda>_. g"] exI [of _ "\<lambda>_. fs"]) simp
next
  case (Cons n ns)
  let ?a = "a\<lparr>noise := 1 / sqrt (2 * 10 powr (real n / 10)) * 2\<rparr>"
  from Cons.prems obtain g1 fs1 where r: "one_run fmt ?a (int n) g fs = Inr (g1, fs1)"
    and rest: "simulate_loop fmt ns ?a g1 fs1 = Inr (a', g', fs')"
    by (auto simp: Let_def split: sum.splits)
  from Cons.IH [OF rest] obtain gs fss where
    c: "gs 0 = g1" "fss 0 = fs1" "gs (length ns) = g'" "fss (length ns) = fs'"
       "\<forall>i<length ns.
          one_run fmt (?a\<lparr>noise := 1 / sqrt (2 * 10 powr (real (ns ! i) / 10)) * 2\<rparr>)
            (int (ns ! i)) (gs i) (fss i) = Inr (gs (Suc i), fss (Suc i))"
       "a' = (if ns = [] then ?a
              else ?a\<lparr>noise := 1 / sqrt (2 * 10 powr (real (last ns) / 10)) * 2\<rparr>)"
    by blast
  let ?gs = "\<lambda>i. case i of 0 \<Rightarrow> g | Suc j \<Rightarrow> gs j"
  let ?fss = "\<lambda>i. case i of 0 \<Rightarrow> fs | Suc j \<Rightarrow> fss j"
  have step: "\<forall>i<length (n # ns).
                 one_run fmt (a\<lparr>noise := 1 / sqrt (2 * 10 powr (real ((n # ns) ! i) / 10)) * 2\<rparr>)
                   (int ((n # ns) ! i)) (?gs i) (?fss i) = Inr (?gs (Suc i), ?fss (Suc i))"
  proof (intro allI impI)
    fix i assume "i < length (n # ns)"
    then show "one_run fmt (a\<lparr>noise := 1 / sqrt (2 * 10 powr (real ((n # ns) ! i) / 10)) * 2\<rparr>)
                   (int ((n # ns) ! i)) (?gs i) (?fss i) = Inr (?gs (Suc i), ?fss (Suc i))"
      using r c(1,2,5) by (cases i) simp_all
  qed
  show ?case
    using c(3,4,6) step
    by (intro exI [of _ ?gs] exI [of _ ?fss]) simp
qed

text \<open>
  Claim C4. A sweep that returns has performed exactly twelve runs, for the indices 0 to 11
  in increasing order, each run starting from the random state and the file system the
  previous one left: before the run for index \<open>n\<close> the noise level is set to
  \<open>1 / sqrt (2 * 10 powr (n / 10)) * 2\<close>, and the run is \<open>one_run\<close> with label \<open>n\<close>. The
  noise level for index 0 is \<open>sqrt 2\<close>.
\<close>
theorem simulate_schedule:
  assumes "simulate fmt a g fs = Inr (a', g', fs')"
  shows "\<exists>gs fss. gs 0 = g \<and> fss 0 = fs \<and> gs 12 = g' \<and> fss 12 = fs'
           \<and> (\<forall>n<12.
                 one_run fmt (a\<lparr>noise := 1 / sqrt (2 * 10 powr (real n / 10)) * 2\<rparr>)
                   (int n) (gs n) (fss n) = Inr (gs (Suc n), fss (Suc n)))
           \<and> a' = a\<lparr>noise := 1 / sqrt (2 * 10 powr (real 11 / 10)) * 2\<rparr>
           \<and> noise (a\<lparr>noise := 1 / sqrt (2 * 10 powr (real 0 / 10)) * 2\<rparr>) = sqrt 2"
proof -
  have l: "last [0..<12] = (11::nat)" by simp
  from assms have "simulate_loop fmt [0..<12] a g fs = Inr (a', g', fs')"
    by (simp add: simulate_def)
  from simulate_loop_chain [OF this] obtain gs fss where
    c: "gs 0 = g" "fss 0 = fs" "gs (length [0..<12]) = g'" "fss (length [0..<12]) = fs'"
       "\<forall>i<length [0..<12].
          one_run fmt (a\<lparr>noise := 1 / sqrt (2 * 10 powr (real ([0..<12] ! i) / 10)) * 2\<rparr>)
            (int ([0..<12] ! i)) (gs i) (fss i) = Inr (gs (Suc i), fss (Suc i))"
       "a' = (if [0..<12] = [] then a
              else a\<lparr>noise := 1 / sqrt (2 * 10 powr (real (last [0..<12]) / 10)) * 2\<rparr>)"
    by blast
  have s0: "2 / sqrt 2 = sqrt 2"
    by (metis real_div_sqrt zero_le_numeral)
  have "\<forall>n<12. one_run fmt (a\<lparr>noise := 1 / sqrt (2 * 10 powr (real n / 10)) * 2\<rparr>)
                   (int n) (gs n) (fss n) = Inr (gs (Suc n), fss (Suc n))"
  proof (intro allI impI)
    fix n :: nat assume n: "n < 12"
    with c(5) have "one_run fmt (a\<lparr>noise := 1 / sqrt (2 * 10 powr (real ([0..<12] ! n) / 10)) * 2\<rparr>)
            (int ([0..<12] ! n)) (gs n) (fss n) = Inr (gs (Suc n), fss (Suc n))" by simp
    moreover from n have "[0..<12] ! n = n" by (simp del: upt_rec_numeral)
    ultimately show "one_run fmt (a\<lparr>noise := 1 / sqrt (2 * 10 powr (real n / 10)) * 2\<rparr>)
                   (int n) (gs n) (fss n) = Inr (gs (Suc n), fss (Suc n))" by simp
  qed
  moreover have "a' = a\<lparr>noise := 1 / sqrt (2 * 10 powr (real 11 / 10)) * 2\<rparr>"
    using c(6) l by (simp del: upt_rec_numeral)
  ultimately show ?thesis
    using c(1,2,3,4) s0 by (intro exI [of _ gs] exI [of _ fss]) simp
qed


theorem simulate_schedule_witness:
  "\<exists>a' g' fs'.
     simulate (\<lambda>x. ''0.5'') \<lparr>sampling_frec = 2, carry_frec = 1, bits_num = 1, noise = 0,
        time = np_linspace01 2, samp_per_bit = 2\<rparr>
        \<lparr>next_bits = \<lambda>k. True, next_normals = \<lambda>k. 0\<rparr>
        \<lparr>output_dir = True, bers_csv = None\<rparr> = Inr (a', g', fs')
     \<and> noise a' = 1 / sqrt (2 * 10 powr (11 / 10)) * 2"
proof -
  let ?a = "\<lparr>sampling_frec = 2, carry_frec = 1, bits_num = 1, noise = 0,
      time = np_linspace01 2, samp_per_bit = 2\<rparr>"
  let ?g = "\<lparr>next_bits = \<lambda>k. True, next_normals = \<lambda>k. 0\<rparr>"
  let ?fs = "\<lparr>output_dir = True, bers_csv = None\<rparr>"
  have "\<exists>a' g' fs'. simulate_loop (\<lambda>x. ''0.5'') [0..<12] ?a ?g ?fs = Inr (a', g', fs')"
    by (rule simulate_loop_total) (simp_all add: length_np_linspace01)
  then obtain a' g' fs' where s: "simulate (\<lambda>x. ''0.5'') ?a ?g ?fs = Inr (a', g', fs')"
    unfolding simulate_def by blast
  from simulate_schedule [OF s] have "noise a' = 1 / sqrt (2 * 10 powr (11 / 10)) * 2"
    by auto
  with s show ?thesis by blast
qed

subsection \<open>The noise-free round trip\<close>

lemma sin_ge_half:
  assumes "pi / 6 \<le> x" and "x \<le> 5 * pi / 6"
  shows "1 / 2 \<le> sin x"
proof (cases "x \<le> pi / 2")
  case True
  have "sin (pi / 6) \<le> sin x"
    using assms(1) True by (intro sin_monotone_2pi_le) (use pi_gt_zero in linarith)+
  then show ?thesis by (simp add: sin_30)
next
  case False
  have "sin (pi / 6) \<le> sin (pi - x)"
    using assms(2) False by (intro sin_monotone_2pi_le) (use pi_gt_zero in linarith)+
  then show ?thesis by (simp add: sin_30)
qed

lemma abs_sin_shift: "\<bar>sin (x + real q * pi)\<bar> = \<bar>sin x\<bar>"
  by (simp add: sin_add abs_mult power_abs)

lemma abs_sin_strong:
  assumes e: "20 * i = 999 * q + r" and lo: "167 \<le> r" and hi: "r \<le> 832"
  shows "0.4 < \<bar>sin (pi * (20 * real i) / 999)\<bar>"
proof -
  from e have "real (20 * i) = real (999 * q + r)" by simp
  then have e': "20 * real i = 999 * real q + real r" by simp
  have "pi * (20 * real i) / 999 = pi * (999 * real q + real r) / 999" by (simp only: e')
  also have "\<dots> = pi * real r / 999 + real q * pi" by (simp add: field_simps)
  finally have a: "\<bar>sin (pi * (20 * real i) / 999)\<bar> = \<bar>sin (pi * real r / 999)\<bar>"
    by (simp only: abs_sin_shift)
  from lo hi have b: "999 \<le> 6 * real r" "6 * real r \<le> 4995" by linarith+
  have "1 / 2 \<le> sin (pi * real r / 999)"
  proof (rule sin_ge_half)
    have "pi * 999 \<le> pi * (6 * real r)" using b(1) by (intro mult_left_mono) simp_all
    then show "pi / 6 \<le> pi * real r / 999" by (simp add: field_simps)
    have "pi * (6 * real r) \<le> pi * 4995" using b(2) by (intro mult_left_mono) simp_all
    then show "pi * real r / 999 \<le> 5 * pi / 6" by (simp add: field_simps)
  qed
  with a show ?thesis by linarith
qed

lemma carrier_strong:
  assumes "k < 10" and "j \<in> {9..40} \<union> {59..90}"
  shows "0.4 < \<bar>sin (pi * (20 * real (k * 100 + j)) / 999)\<bar>"
proof (cases "j \<le> 40")
  case True
  with assms have j: "9 \<le> j" "j \<le> 40" by auto
  show ?thesis
  proof (rule abs_sin_strong [where q = "2 * k" and r = "2 * k + 20 * j"])
    show "20 * (k * 100 + j) = 999 * (2 * k) + (2 * k + 20 * j)" by simp
    show "167 \<le> 2 * k + 20 * j" using j by linarith
    show "2 * k + 20 * j \<le> 832" using j assms(1) by linarith
  qed
next
  case False
  with assms have j: "59 \<le> j" "j \<le> 90" by auto
  show ?thesis
  proof (rule abs_sin_strong [where q = "2 * k + 1" and r = "2 * k + 20 * j - 999"])
    show "20 * (k * 100 + j) = 999 * (2 * k + 1) + (2 * k + 20 * j - 999)" using j by simp
    show "167 \<le> 2 * k + 20 * j - 999" using j by linarith
    show "2 * k + 20 * j - 999 \<le> 832" using j assms(1) by linarith
  qed
qed

lemma take_drop_nth_map:
  "m + n \<le> length xs \<Longrightarrow> take n (drop m xs) = map (\<lambda>j. xs ! (m + j)) [0..<n]"
  by (intro nth_equalityI) simp_all

lemma np_repeat_nth:
  "i < length xs * n \<Longrightarrow> np_repeat xs n ! i = xs ! (i div n)"
proof (induction xs arbitrary: i)
  case Nil
  then show ?case by simp
next
  case (Cons x xs)
  have r: "np_repeat (x # xs) n = replicate n x @ np_repeat xs n"
    by (simp add: np_repeat_def)
  show ?case
  proof (cases "i < n")
    case True
    then show ?thesis by (simp add: r nth_append)
  next
    case False
    then have ge: "n \<le> i" by simp
    with Cons.prems have "i - n < length xs * n" by simp
    then have "np_repeat xs n ! (i - n) = xs ! ((i - n) div n)" by (rule Cons.IH)
    moreover from Cons.prems have "0 < n" by (cases n) simp_all
    with ge have "i div n = Suc ((i - n) div n)" by (simp add: le_div_geq)
    ultimately show ?thesis using False by (simp add: r nth_append)
  qed
qed

lemma segment_sum_bound:
  fixes h :: "nat \<Rightarrow> real"
  assumes nonneg: "\<And>j. 0 \<le> h j" and one: "\<And>j. j \<in> {9..40} \<union> {59..90} \<Longrightarrow> h j = 1"
  shows "64 \<le> sum_list (map h [0..<100])"
proof -
  let ?S = "{9..40} \<union> {59..90 :: nat}"
  have c: "card ?S = 64"
    by (subst card_Un_disjoint) auto
  have "sum h ?S = sum (\<lambda>j. 1) ?S"
    by (rule sum.cong) (simp_all add: one)
  then have s: "sum h ?S = 64" by (simp only: sum_constant c of_nat_numeral mult_1_right)
  have "sum h ?S \<le> sum h {0..<100}"
    by (rule sum_mono2) (auto simp: nonneg)
  moreover have "sum_list (map h [0..<100]) = sum h {0..<100}"
    by (simp only: interv_sum_list_conv_sum_set_nat set_upt)
  ultimately show ?thesis using s by linarith
qed

lemma add_zero_noise:
  "map2 (+) xs (map (\<lambda>k. 0) [0..<length xs]) = (xs :: real list)"
  by (intro nth_equalityI) simp_all

lemma no_errors_self:
  "filter ((\<lambda>b. b) \<circ> (\<lambda>(x, y). x \<noteq> y)) (zip xs xs) = []"
  by (induction xs) auto

text \<open>
  Claim C1. For the simulator constructed with sampling frequency 1000, carrier frequency
  10, bit count 10 and noise level 0, and every message of ten bits, modulating the message
  with the generated carrier wave succeeds, adding noise of level 0 leaves the signal as it
  is, demodulating the signal returns the message exactly, and the bit error rate of the
  message against itself is 0. In each section of 100 samples of a 1 bit at least 64
  carrier samples have absolute value at least 1/2, above the threshold 0.4 and above the
  vote threshold of 50; the sections of a 0 bit are zero.
\<close>

theorem noise_free_round_trip:
  assumes i: "ASK_init 1000 10 10 0 = Inr a"
    and len: "length message = 10"
    and bits: "set message \<subseteq> {0, 1}"
  shows "\<exists>signal. modulation a message (generateCarryWave a) = Inr signal
           \<and> addNoise a signal g
               = Inr (signal, g\<lparr>next_normals := \<lambda>k. next_normals g (k + length signal)\<rparr>)
           \<and> demodulation a signal = Inr message
           \<and> calculateBER a message message = Inr (Finite 0)"
proof -
  note f = ASK_init_Inr [OF i]
  let ?c = "generateCarryWave a"
  let ?chip = "\<lambda>x::real. if 0.4 < \<bar>x\<bar> then 1 else (0::real)"
  define signal where "signal = map2 (\<lambda>c m. c * real_of_int m) ?c (np_repeat message 100)"
  have lc: "length ?c = 1000"
    using f by (simp add: length_generateCarryWave length_np_linspace01)
  have lr: "length (np_repeat message 100) = 1000"
    using len by (simp add: length_np_repeat)
  have ls: "length signal = 1000"
    using lc lr by (simp add: signal_def)
  have cn: "?c ! n = sin (pi * (20 * real n) / 999)" if "n < 1000" for n
    using that f by (simp add: generateCarryWave_def np_linspace01_def mult.assoc mult.left_commute)
  have m: "modulation a message ?c = Inr signal"
    using modulation_init [OF i len] by (simp add: signal_def)
  have sn: "signal ! (k * 100 + j) = ?c ! (k * 100 + j) * real_of_int (message ! k)"
    if "k < 10" "j < 100" for k j
  proof -
    from that have lt: "k * 100 + j < 1000" by linarith
    then have "np_repeat message 100 ! (k * 100 + j) = message ! ((k * 100 + j) div 100)"
      using len by (intro np_repeat_nth) simp
    moreover from that have "(k * 100 + j) div 100 = k" by simp
    ultimately show ?thesis using lt lc lr by (simp add: signal_def)
  qed
  have seg: "take 100 (drop (k * 100) (map ?chip (take 1000 signal)))
               = map (\<lambda>j. ?chip (signal ! (k * 100 + j))) [0..<100]" if "k < 10" for k
  proof -
    from that have b: "k * 100 + 100 \<le> 1000" by linarith
    have "take 100 (drop (k * 100) (map ?chip (take 1000 signal)))
            = map (\<lambda>j. map ?chip (take 1000 signal) ! (k * 100 + j)) [0..<100]"
      using b ls by (intro take_drop_nth_map) simp
    also have "\<dots> = map (\<lambda>j. ?chip (signal ! (k * 100 + j))) [0..<100]"
    proof (rule map_cong [OF refl])
      fix j assume "j \<in> set [0..<100]"
      then have "k * 100 + j < 1000" using b by simp
      then show "map ?chip (take 1000 signal) ! (k * 100 + j) = ?chip (signal ! (k * 100 + j))"
        using ls by simp
    qed
    finally show ?thesis .
  qed
  define F where "F = (\<lambda>k. if real 100 / 2
                              < sum_list (take 100 (drop (k * 100) (map ?chip (take 1000 signal))))
                           then 1 else (0::int))"
  have vote: "F k = message ! k" if k: "k < 10" for k
  proof -
    from k len bits have "message ! k \<in> {0, 1}" by (metis nth_mem subsetD)
    then consider "message ! k = 0" | "message ! k = 1" by auto
    then show ?thesis
    proof cases
      case 1
      have "map (\<lambda>j. ?chip (signal ! (k * 100 + j))) [0..<100] = map (\<lambda>j. 0) [0..<100]"
        by (rule map_cong [OF refl]) (simp add: sn [OF k] 1)
      then have "sum_list (take 100 (drop (k * 100) (map ?chip (take 1000 signal)))) = 0"
        by (simp only: seg [OF k]) simp
      with 1 show ?thesis by (simp add: F_def)
    next
      case 2
      have "64 \<le> sum_list (map (\<lambda>j. ?chip (signal ! (k * 100 + j))) [0..<100])"
      proof (rule segment_sum_bound)
        fix j show "0 \<le> ?chip (signal ! (k * 100 + j))" by simp
      next
        fix j :: nat assume j: "j \<in> {9..40} \<union> {59..90}"
        then have j100: "j < 100" by auto
        from k j100 have "k * 100 + j < 1000" by linarith
        with sn [OF k j100] 2 cn have "signal ! (k * 100 + j) = sin (pi * (20 * real (k * 100 + j)) / 999)"
          by simp
        with carrier_strong [OF k j] show "?chip (signal ! (k * 100 + j)) = 1" by simp
      qed
      then have "64 \<le> sum_list (take 100 (drop (k * 100) (map ?chip (take 1000 signal))))"
        by (simp only: seg [OF k])
      with 2 show ?thesis by (simp add: F_def)
    qed
  qed
  have "demodulation a signal = Inr (map F [0..<10])"
    using f ls by (simp add: demodulation_eq F_def)
  also have "map F [0..<10] = message"
    using len by (intro nth_equalityI) (simp_all add: vote del: upt_rec_numeral)
  finally have d: "demodulation a signal = Inr message" .
  have n: "addNoise a signal g
             = Inr (signal, g\<lparr>next_normals := \<lambda>k. next_normals g (k + length signal)\<rparr>)"
    using f by (simp add: addNoise_def Let_def np_binop_def add_zero_noise)
  have b: "calculateBER a message message = Inr (Finite 0)"
    using f by (simp add: calculateBER_def np_binop_def np_true_divide_def Let_def no_errors_self)
  from m n d b show ?thesis by blast
qed

theorem noise_free_round_trip_witness:
  "ASK_init 1000 10 10 0
     = Inr \<lparr>sampling_frec = 1000, carry_frec = 10, bits_num = 10, noise = 0,
            time = np_linspace01 1000, samp_per_bit = 100\<rparr>
   \<and> (\<exists>signal.
        modulation \<lparr>sampling_frec = 1000, carry_frec = 10, bits_num = 10, noise = 0,
            time = np_linspace01 1000, samp_per_bit = 100\<rparr> [1, 0, 1, 1, 0, 0, 1, 0, 1, 1]
          (generateCarryWave \<lparr>sampling_frec = 1000, carry_frec = 10, bits_num = 10, noise = 0,
            time = np_linspace01 1000, samp_per_bit = 100\<rparr>) = Inr signal
      \<and> demodulation \<lparr>sampling_frec = 1000, carry_frec = 10, bits_num = 10, noise = 0,
            time = np_linspace01 1000, samp_per_bit = 100\<rparr> signal
          = Inr [1, 0, 1, 1, 0, 0, 1, 0, 1, 1])"
proof -
  have i: "ASK_init 1000 10 10 0
     = Inr \<lparr>sampling_frec = 1000, carry_frec = 10, bits_num = 10, noise = 0,
            time = np_linspace01 1000, samp_per_bit = 100\<rparr>"
    by (simp add: ASK_init_def)
  from noise_free_round_trip [OF i, of "[1, 0, 1, 1, 0, 0, 1, 0, 1, 1]"] i show ?thesis
    by auto
qed

end
